theory Spec2Isabelle
  imports Complex_Main "HOL-Library.Word"
begin

unbundle bit_operations_syntax

section \<open>The kick drum generator of \<^verbatim>\<open>generate_kicks.py\<close>\<close>

text \<open>
  The script has one function, \<^verbatim>\<open>generate_kick\<close>, called four times. It computes a buffer
  of samples with numpy, quantizes it to 16-bit integers and writes a WAV file with the
  standard \<^verbatim>\<open>wave\<close> module.

  Conventions of the model:
  \<^item> A Python float is a \<^typ>\<open>real\<close>: every arithmetic step is exact, the literals
    \<^verbatim>\<open>0.1\<close> and \<^verbatim>\<open>0.005\<close> are the rationals they denote, and there is no overflow to
    infinity. The one place where the real numbers and IEEE arithmetic part ways without
    an exception, a division by zero, is written out: it yields NaN samples, the outcome
    \<open>NaNSamples\<close> below.
  \<^item> \<^verbatim>\<open>sample_rate\<close> is a Python int, an \<^typ>\<open>int\<close>.
  \<^item> The Gaussian noise of the click is an input: \<open>draws i\<close> is the \<open>i\<close>-th value that
    \<^verbatim>\<open>np.random.normal(0, 0.3, click_samples)\<close> returns.
  \<^item> An exception is a value \<open>Inl e\<close>; the file that a successful run writes is the list
    of its bytes.
\<close>

datatype failure =
    ValueError    \<comment> \<open>raised by numpy: negative size, shape mismatch, maximum of an empty array\<close>
  | WaveError     \<comment> \<open>\<^verbatim>\<open>wave.Error\<close>: bad frame rate\<close>
  | StructError   \<comment> \<open>\<^verbatim>\<open>struct.error\<close>: a header field does not fit 32 bits\<close>
  | NaNSamples    \<comment> \<open>no exception: the buffer is NaN, its cast to int16 is platform dependent\<close>

type_synonym byte = "8 word"
type_synonym int16 = "16 word"

subsection \<open>Library functions\<close>

text \<open>Python's \<^verbatim>\<open>int(x)\<close> on a float: truncation towards zero.\<close>

definition py_int :: "real \<Rightarrow> int" where
  "py_int x = (if 0 \<le> x then \<lfloor>x\<rfloor> else \<lceil>x\<rceil>)"

text \<open>
  \<^verbatim>\<open>np.linspace(start, stop, num)\<close> with the default \<^verbatim>\<open>endpoint=True\<close>: a negative
  \<^verbatim>\<open>num\<close> raises; with \<^verbatim>\<open>div = num - 1\<close> the values are \<^verbatim>\<open>arange(num) * step + start\<close>
  for \<^verbatim>\<open>step = delta / div\<close> when \<^verbatim>\<open>div > 0\<close>, and \<^verbatim>\<open>arange(num) * delta + start\<close>
  otherwise.
\<close>

definition linspace :: "real \<Rightarrow> real \<Rightarrow> int \<Rightarrow> failure + real list" where
  "linspace start stop num =
     (if num < 0 then Inl ValueError
      else
        let dv = num - 1; delta = stop - start in
        if 0 < dv
        then Inr (map (\<lambda>i. real i * (delta / of_int dv) + start) [0..<nat num])
        else Inr (map (\<lambda>i. real i * delta + start) [0..<nat num]))"

text \<open>\<^verbatim>\<open>np.cumsum\<close>: the running sum.\<close>

fun cumsum_from :: "real \<Rightarrow> real list \<Rightarrow> real list" where
  "cumsum_from acc [] = []"
| "cumsum_from acc (x # xs) = (acc + x) # cumsum_from (acc + x) xs"

definition cumsum :: "real list \<Rightarrow> real list" where
  "cumsum xs = cumsum_from 0 xs"

text \<open>\<^verbatim>\<open>np.max\<close>: the maximum of an array, a \<^verbatim>\<open>ValueError\<close> on an empty one.\<close>

definition np_max :: "real list \<Rightarrow> failure + real" where
  "np_max xs = (case xs of [] \<Rightarrow> Inl ValueError | x # ys \<Rightarrow> Inr (fold max ys x))"

text \<open>
  \<^verbatim>\<open>np.random.normal(0, 0.3, n)\<close>: \<open>n\<close> draws, a \<^verbatim>\<open>ValueError\<close> for a negative \<open>n\<close>.
\<close>

definition random_normal :: "(nat \<Rightarrow> real) \<Rightarrow> int \<Rightarrow> failure + real list" where
  "random_normal draws n = (if n < 0 then Inl ValueError else Inr (map draws [0..<nat n]))"

text \<open>
  \<^verbatim>\<open>a[:n] += c\<close> on one-dimensional arrays, for \<open>n \<ge> 0\<close>. The slice has
  \<open>m = min n (len a)\<close> elements. numpy broadcasts \<open>c\<close> against the slice and writes
  into the slice: that works when \<open>c\<close> has \<open>m\<close> elements (elementwise) or one
  element (added to each element of the slice, possibly to none), and raises a
  \<^verbatim>\<open>ValueError\<close> otherwise.
\<close>

definition iadd_prefix :: "real list \<Rightarrow> nat \<Rightarrow> real list \<Rightarrow> failure + real list" where
  "iadd_prefix a n c =
     (let m = min n (length a) in
      if length c = m then Inr (map2 (+) (take m a) c @ drop m a)
      else if length c = 1 then Inr (map (\<lambda>x. x + hd c) (take m a) @ drop m a)
      else Inl ValueError)"

text \<open>
  \<^verbatim>\<open>x.astype(np.int16)\<close> on a float: the C conversion, which drops the fraction. The
  value is only defined when the truncated number fits 16 bits; the model wraps
  otherwise, as the common platforms do.
\<close>

definition astype_int16 :: "real \<Rightarrow> int16" where
  "astype_int16 x = word_of_int (py_int x)"

text \<open>
  \<^verbatim>\<open>tobytes()\<close> of an int16 array, as \<^verbatim>\<open>wave\<close> writes it: the low byte first
  (\<^verbatim>\<open>writeframes\<close> swaps the bytes on a big-endian machine).
\<close>

definition int16_bytes :: "int16 \<Rightarrow> byte list" where
  "int16_bytes w = [ucast w, ucast (drop_bit 8 w)]"

definition tobytes :: "int16 list \<Rightarrow> byte list" where
  "tobytes ws = concat (map int16_bytes ws)"

subsection \<open>The \<^verbatim>\<open>wave\<close> module's writer\<close>

text \<open>\<^verbatim>\<open>struct.pack('<L', v)\<close> and \<^verbatim>\<open>struct.pack('<H', v)\<close>.\<close>

definition pack_L :: "int \<Rightarrow> failure + byte list" where
  "pack_L v =
     (if 0 \<le> v \<and> v < 2 ^ 32
      then Inr [word_of_int v, word_of_int (v div 2 ^ 8), word_of_int (v div 2 ^ 16),
                word_of_int (v div 2 ^ 24)]
      else Inl StructError)"

definition pack_H :: "int \<Rightarrow> failure + byte list" where
  "pack_H v =
     (if 0 \<le> v \<and> v < 2 ^ 16
      then Inr [word_of_int v, word_of_int (v div 2 ^ 8)]
      else Inl StructError)"

definition ascii :: "string \<Rightarrow> byte list" where
  "ascii s = map (\<lambda>c. word_of_nat (of_char c)) s"

text \<open>Packing a list of fields fails when one of them fails.\<close>

fun pack_all :: "(failure + byte list) list \<Rightarrow> failure + byte list" where
  "pack_all [] = Inr []"
| "pack_all (f # fs) =
     (case f of
        Inl e \<Rightarrow> Inl e
      | Inr bs \<Rightarrow> (case pack_all fs of Inl e \<Rightarrow> Inl e | Inr cs \<Rightarrow> Inr (bs @ cs)))"

text \<open>
  The header that \<^verbatim>\<open>wave\<close> writes for one channel of 2-byte samples:
  \<^verbatim>\<open>'RIFF', pack('<L4s4sLHHLLHH4s', 36 + datalength, 'WAVE', 'fmt ', 16, 1, nchannels,
  framerate, nchannels * framerate * sampwidth, nchannels * sampwidth, sampwidth * 8,
  'data'), pack('<L', datalength)\<close>.
\<close>

definition wave_header :: "int \<Rightarrow> int \<Rightarrow> failure + byte list" where
  "wave_header framerate datalength =
     (let nchannels = 1; sampwidth = 2
      in pack_all
           [Inr (ascii ''RIFF''), pack_L (36 + datalength), Inr (ascii ''WAVE''),
            Inr (ascii ''fmt ''), pack_L 16, pack_H 1, pack_H nchannels,
            pack_L framerate, pack_L (nchannels * framerate * sampwidth),
            pack_H (nchannels * sampwidth), pack_H (sampwidth * 8),
            Inr (ascii ''data''), pack_L datalength])"

text \<open>
  What lines 42 to 46 leave in the file: \<^verbatim>\<open>setnchannels(1)\<close>, \<^verbatim>\<open>setsampwidth(2)\<close>,
  \<^verbatim>\<open>setframerate(sample_rate)\<close> (which raises for a rate that is not positive), and
  \<^verbatim>\<open>writeframes(data)\<close>. The latter writes the header for
  \<^verbatim>\<open>nframes = len(data) // (sampwidth * nchannels)\<close> frames, then the data, and patches
  the two lengths of the header when the bytes written are not
  \<^verbatim>\<open>nframes * nchannels * sampwidth\<close>. The file system is taken to accept the write.
\<close>

definition wave_write :: "int \<Rightarrow> byte list \<Rightarrow> failure + byte list" where
  "wave_write framerate data =
     (if framerate \<le> 0 then Inl WaveError
      else
        let nchannels = 1; sampwidth = 2;
            nframes = int (length data) div (nchannels * sampwidth);
            datalength = nframes * nchannels * sampwidth;
            datawritten = int (length data)
        in case wave_header framerate datalength of
             Inl e \<Rightarrow> Inl e
           | Inr header \<Rightarrow>
               if datalength = datawritten then Inr (header @ data)
               else (case wave_header framerate datawritten of
                       Inl e \<Rightarrow> Inl e
                     | Inr patched \<Rightarrow> Inr (patched @ data)))"

subsection \<open>\<^verbatim>\<open>generate_kick\<close>, stage by stage\<close>

text \<open>Line 12: \<^verbatim>\<open>t = np.linspace(0, duration, int(sample_rate * duration))\<close>.\<close>

definition sample_count :: "int \<Rightarrow> real \<Rightarrow> int" where
  "sample_count sample_rate duration = py_int (of_int sample_rate * duration)"

definition time_axis :: "int \<Rightarrow> real \<Rightarrow> failure + real list" where
  "time_axis sample_rate duration = linspace 0 duration (sample_count sample_rate duration)"

text \<open>Line 15: \<^verbatim>\<open>freq = base_freq * np.exp(-t / (duration * 0.1))\<close>.\<close>

definition sweep_freq :: "real \<Rightarrow> real \<Rightarrow> real \<Rightarrow> real" where
  "sweep_freq base_freq duration x = base_freq * exp (- x / (duration * (1 / 10)))"

definition freq :: "real \<Rightarrow> real \<Rightarrow> real list \<Rightarrow> real list" where
  "freq base_freq duration t = map (sweep_freq base_freq duration) t"

text \<open>
  Lines 18 and 19: \<^verbatim>\<open>phase = 2 * np.pi * np.cumsum(freq) / sample_rate\<close> and
  \<^verbatim>\<open>signal = np.sin(phase)\<close>.
\<close>

definition phase :: "int \<Rightarrow> real list \<Rightarrow> real list" where
  "phase sample_rate fr = map (\<lambda>c. 2 * pi * c / of_int sample_rate) (cumsum fr)"

definition signal :: "int \<Rightarrow> real list \<Rightarrow> real list" where
  "signal sample_rate fr = map sin (phase sample_rate fr)"

text \<open>Line 22: \<^verbatim>\<open>envelope = np.exp(-t / decay)\<close>.\<close>

definition envelope :: "real \<Rightarrow> real list \<Rightarrow> real list" where
  "envelope decay t = map (\<lambda>x. exp (- x / decay)) t"

text \<open>Line 25: \<^verbatim>\<open>kick = signal * envelope\<close>, the enveloped tone.\<close>

definition tone :: "int \<Rightarrow> real \<Rightarrow> real \<Rightarrow> real \<Rightarrow> real list \<Rightarrow> real list" where
  "tone sample_rate duration base_freq decay t =
     map2 (*) (signal sample_rate (freq base_freq duration t)) (envelope decay t)"

text \<open>
  Lines 28 to 32: the click, \<^verbatim>\<open>click_samples = int(sample_rate * 0.005)\<close> draws of noise
  times \<^verbatim>\<open>np.exp(-np.linspace(0, 10, click_samples))\<close>.
\<close>

definition click_samples :: "int \<Rightarrow> int" where
  "click_samples sample_rate = py_int (of_int sample_rate * (5 / 1000))"

definition click :: "(nat \<Rightarrow> real) \<Rightarrow> int \<Rightarrow> failure + real list" where
  "click draws n =
     (case random_normal draws n of
        Inl e \<Rightarrow> Inl e
      | Inr noise \<Rightarrow>
          (case linspace 0 10 n of
             Inl e \<Rightarrow> Inl e
           | Inr r \<Rightarrow> Inr (map2 (*) noise (map (\<lambda>x. exp (- x)) r))))"

text \<open>Line 33: \<^verbatim>\<open>kick[:click_samples] += click\<close>.\<close>

definition add_click :: "int \<Rightarrow> (nat \<Rightarrow> real) \<Rightarrow> real list \<Rightarrow> failure + real list" where
  "add_click sample_rate draws kick =
     (case click draws (click_samples sample_rate) of
        Inl e \<Rightarrow> Inl e
      | Inr c \<Rightarrow> iadd_prefix kick (nat (click_samples sample_rate)) c)"

text \<open>Lines 12 to 33: the buffer before it is normalized.\<close>

definition kick_buffer ::
  "int \<Rightarrow> real \<Rightarrow> real \<Rightarrow> real \<Rightarrow> (nat \<Rightarrow> real) \<Rightarrow> failure + real list" where
  "kick_buffer sample_rate duration base_freq decay draws =
     (case time_axis sample_rate duration of
        Inl e \<Rightarrow> Inl e
      | Inr t \<Rightarrow> add_click sample_rate draws (tone sample_rate duration base_freq decay t))"

text \<open>
  Line 36: \<^verbatim>\<open>kick = kick / np.max(np.abs(kick))\<close>. The maximum of an empty buffer
  raises. A zero peak makes every quotient \<^verbatim>\<open>0/0\<close>, a NaN; and with \<^verbatim>\<open>decay = 0\<close>
  line 22 has already put the NaN \<^verbatim>\<open>-0/0\<close> at time 0 in a buffer that is not empty,
  which \<^verbatim>\<open>np.max\<close> and the division spread to every sample. numpy only warns in both
  cases.
\<close>

definition peak :: "real list \<Rightarrow> failure + real" where
  "peak kick = np_max (map abs kick)"

definition normalize :: "real \<Rightarrow> real list \<Rightarrow> failure + real list" where
  "normalize decay kick =
     (case peak kick of
        Inl e \<Rightarrow> Inl e
      | Inr p \<Rightarrow> if decay = 0 \<or> p = 0 then Inl NaNSamples else Inr (map (\<lambda>x. x / p) kick))"

text \<open>Lines 12 to 36: the normalized buffer.\<close>

definition synthesize ::
  "int \<Rightarrow> real \<Rightarrow> real \<Rightarrow> real \<Rightarrow> (nat \<Rightarrow> real) \<Rightarrow> failure + real list" where
  "synthesize sample_rate duration base_freq decay draws =
     (case kick_buffer sample_rate duration base_freq decay draws of
        Inl e \<Rightarrow> Inl e
      | Inr kick \<Rightarrow> normalize decay kick)"

text \<open>Line 39: \<^verbatim>\<open>kick_int = (kick * 32767).astype(np.int16)\<close>.\<close>

definition quantize :: "real \<Rightarrow> int16" where
  "quantize s = astype_int16 (s * 32767)"

definition kick_int :: "real list \<Rightarrow> int16 list" where
  "kick_int kick = map quantize kick"

text \<open>Lines 42 to 46: the file written for a normalized buffer.\<close>

definition write_wav :: "int \<Rightarrow> real list \<Rightarrow> failure + byte list" where
  "write_wav sample_rate kick = wave_write sample_rate (tobytes (kick_int kick))"

text \<open>The whole function: the bytes of the file, or the failure that ended the run.\<close>

definition generate_kick ::
  "int \<Rightarrow> real \<Rightarrow> real \<Rightarrow> real \<Rightarrow> (nat \<Rightarrow> real) \<Rightarrow> failure + byte list" where
  "generate_kick sample_rate duration base_freq decay draws =
     (case synthesize sample_rate duration base_freq decay draws of
        Inl e \<Rightarrow> Inl e
      | Inr kick \<Rightarrow> write_wav sample_rate kick)"

text \<open>Line 56, the first of the four calls, with the defaults of line 8.\<close>

definition kick1 :: "(nat \<Rightarrow> real) \<Rightarrow> failure + byte list" where
  "kick1 draws = generate_kick 44100 (1 / 2) 55 (4 / 10) draws"

subsection \<open>Inputs used in examples\<close>

text \<open>A run in which every noise draw is 0.\<close>

definition no_noise :: "nat \<Rightarrow> real" where
  "no_noise i = 0"

text \<open>A run in which every noise draw is 1.\<close>

definition unit_draws :: "nat \<Rightarrow> real" where
  "unit_draws i = 1"

subsection \<open>Reading a file back\<close>

text \<open>
  Modelled from the spec: the script only writes; the decoder that the round-trip
  guarantee of section 4.2 speaks of is not part of the repository. It is the reader of
  the canonical 44-byte layout: it checks the chunk tags and the PCM format code, takes
  the channel count, the sample width in bits and the frame rate from the header, and
  decodes the declared number of data bytes as little-endian 16-bit integers.
\<close>

definition unpack :: "byte list \<Rightarrow> int" where
  "unpack bs = foldr (\<lambda>b acc. uint b + 256 * acc) bs 0"

fun frombytes :: "byte list \<Rightarrow> int16 list" where
  "frombytes (lo # hi # rest) = (ucast lo OR push_bit 8 (ucast hi)) # frombytes rest"
| "frombytes rest = []"

record wav =
  channels :: int
  sample_bits :: int
  framerate :: int
  frames :: "int16 list"

definition decode_wav :: "byte list \<Rightarrow> wav option" where
  "decode_wav f =
     (if length f < 44 \<or> take 4 f \<noteq> ascii ''RIFF'' \<or> take 4 (drop 8 f) \<noteq> ascii ''WAVE''
         \<or> take 4 (drop 12 f) \<noteq> ascii ''fmt '' \<or> unpack (take 2 (drop 20 f)) \<noteq> 1
         \<or> take 4 (drop 36 f) \<noteq> ascii ''data''
      then None
      else Some \<lparr>channels = unpack (take 2 (drop 22 f)),
                 sample_bits = unpack (take 2 (drop 34 f)),
                 framerate = unpack (take 4 (drop 24 f)),
                 frames = frombytes (take (nat (unpack (take 4 (drop 40 f)))) (drop 44 f))\<rparr>)"

subsection \<open>Peak frames of a written file\<close>

text \<open>
  The number of frames of a written file that hold the quantized peak, \<open>32767\<close> or
  \<open>-32767\<close>: the frames are the 16-bit integers after the 44 bytes of the header. A run
  that raised has written no frame.
\<close>

definition peak_frames :: "failure + byte list \<Rightarrow> nat" where
  "peak_frames r =
     (case r of
        Inl e \<Rightarrow> 0
      | Inr f \<Rightarrow> length (filter (\<lambda>w. \<bar>sint w\<bar> = 32767) (frombytes (drop 44 f))))"

text \<open>
  Noise draws for the first call under which the first two samples of the buffer, tone
  plus click, are both 2: the draw 0 is \<open>2\<close> minus the tone at index 0, the draw 1 is
  \<open>2\<close> minus the tone at index 1, divided by the click envelope \<open>exp (- 10 / 219)\<close>;
  every other draw is 0.
\<close>

definition tie_draws :: "nat \<Rightarrow> real" where
  "tie_draws i =
     (if i = 0 then 2 - sin (2 * pi * 55 / 44100)
      else if i = 1
      then (2 - sin (2 * pi * (55 + 55 * exp (- (1 / 44098) / (1 / 2 * (1 / 10)))) / 44100)
                * exp (- (1 / 44098) / (4 / 10))) / exp (- (10 / 219))
      else 0)"

section \<open>Shapes of the intermediate arrays\<close>


lemma linspace_Inr: "0 \<le> n \<Longrightarrow> \<exists>r. linspace a b n = Inr r \<and> length r = nat n"
  by (simp add: linspace_def Let_def)

lemma linspace_Inl: "n < 0 \<Longrightarrow> linspace a b n = Inl ValueError"
  by (simp add: linspace_def)

lemma linspace_length: "linspace a b n = Inr r \<Longrightarrow> length r = nat n"
  by (auto simp: linspace_def Let_def split: if_splits)

lemma length_cumsum_from: "length (cumsum_from acc xs) = length xs"
  by (induction xs arbitrary: acc) auto

lemma length_tone: "length (tone sr d b decay t) = length t"
  by (simp add: tone_def signal_def phase_def freq_def envelope_def cumsum_def
      length_cumsum_from)

lemma tone_Nil: "tone sr d b decay [] = []"
  by (simp add: tone_def signal_def phase_def freq_def envelope_def cumsum_def)

lemma click_length: "click draws n = Inr c \<Longrightarrow> length c = nat n \<and> 0 \<le> n"
  by (auto simp: click_def random_normal_def linspace_def Let_def
      split: if_splits sum.splits)

lemma click_Inr: "0 \<le> n \<Longrightarrow> \<exists>c. click draws n = Inr c \<and> length c = nat n"
  by (auto simp: click_def random_normal_def linspace_def Let_def)

lemma click_Inl: "n < 0 \<Longrightarrow> click draws n = Inl ValueError"
  by (auto simp: click_def random_normal_def)

lemma peak_Nil: "peak [] = Inl ValueError"
  by (simp add: peak_def np_max_def)

section \<open>A zero duration\<close>

lemma sample_count_zero: "sample_count sr 0 = 0"
  by (simp add: sample_count_def py_int_def)

lemma time_axis_zero: "time_axis sr 0 = Inr []"
  by (simp add: time_axis_def sample_count_zero linspace_def)

lemma add_click_Nil:
  "add_click sr draws [] = Inr [] \<or> add_click sr draws [] = Inl ValueError"
proof (cases "click_samples sr < 0")
  case True
  then show ?thesis by (simp add: add_click_def click_Inl)
next
  case False
  then obtain c where "click draws (click_samples sr) = Inr c"
    using click_Inr[of "click_samples sr" draws] by auto
  then show ?thesis by (simp add: add_click_def iadd_prefix_def)
qed

text \<open>
  Claim C7 says that a duration of 0 gives a buffer of length 0 and a run that ends
  without a crash, with a file of a header and no frame. The buffer is empty, but the
  run does not reach the writer: at the rate 44100 the click has 220 samples and cannot
  be added to the empty buffer.
\<close>

theorem zero_duration_counterexample:
  "generate_kick 44100 0 55 (4 / 10) no_noise = Inl ValueError"
proof -
  have "click_samples 44100 = 220"
    by (simp add: click_samples_def py_int_def)
  moreover obtain c where "click no_noise 220 = Inr c" "length c = 220"
    using click_Inr[of 220 no_noise] by auto
  ultimately have "add_click 44100 no_noise [] = Inl ValueError"
    by (simp add: add_click_def iadd_prefix_def)
  then show ?thesis
    by (simp add: generate_kick_def synthesize_def kick_buffer_def time_axis_zero tone_Nil)
qed

text \<open>
  Claim C7, amended: for a duration of 0, whatever the other parameters and the noise,
  the time axis is empty and the synthesis itself raises a \<^verbatim>\<open>ValueError\<close> (at the
  click overlay, or else at the maximum of the empty buffer), so that no file is
  opened.
\<close>

theorem zero_duration_raises:
  "time_axis sr 0 = Inr [] \<and> synthesize sr 0 b decay draws = Inl ValueError
   \<and> generate_kick sr 0 b decay draws = Inl ValueError"
  using add_click_Nil[of sr draws]
  by (auto simp: generate_kick_def synthesize_def kick_buffer_def time_axis_zero tone_Nil
      normalize_def peak_Nil)

section \<open>A buffer shorter than the click\<close>



section \<open>The click overlay\<close>

lemma iadd_prefix_nth:
  assumes "iadd_prefix a n c = Inr a'" and "length c = n"
  shows "length a' = length a \<and>
         (\<forall>i<length a. a' ! i = (if i < n then a ! i + c ! i else a ! i))"
proof (cases "n \<le> length a")
  case True
  with assms have a': "a' = map2 (+) (take n a) c @ drop n a"
    by (simp add: iadd_prefix_def min_def)
  have len: "length (map2 (+) (take n a) c) = n"
    using True assms(2) by simp
  show ?thesis
  proof (intro conjI allI impI)
    show "length a' = length a" using True assms(2) by (simp add: a')
  next
    fix i assume i: "i < length a"
    show "a' ! i = (if i < n then a ! i + c ! i else a ! i)"
    proof (cases "i < n")
      case True
      then show ?thesis using len assms(2) i by (simp add: a' nth_append)
    next
      case False
      then show ?thesis using len i \<open>n \<le> length a\<close> by (simp add: a' nth_append)
    qed
  qed
next
  case False
  then have m: "min n (length a) = length a" "length c \<noteq> length a" using assms(2) by auto
  with assms have "length c = 1" "a' = map (\<lambda>x. x + hd c) (take (length a) a) @ drop (length a) a"
    by (auto simp: iadd_prefix_def Let_def split: if_splits)
  with False assms(2) have "a = []" by (cases a) auto
  with assms show ?thesis by (auto simp: iadd_prefix_def Let_def split: if_splits)
qed

text \<open>
  Claim C5: the click stage changes only the first \<open>floor (sample_rate * 0.005)\<close>
  samples of the enveloped tone, by adding the click to them; the buffer keeps its length
  and every sample at a later index keeps its value.
\<close>

theorem click_only_prefix:
  assumes "add_click sr draws kick = Inr kick'"
  shows "\<exists>c. click draws (click_samples sr) = Inr c \<and>
             length c = nat \<lfloor>of_int sr * (5 / 1000 :: real)\<rfloor> \<and>
             length kick' = length kick \<and>
             (\<forall>i<length kick. kick' ! i = (if i < length c then kick ! i + c ! i else kick ! i))"
proof -
  from assms obtain c where c: "click draws (click_samples sr) = Inr c"
    and add: "iadd_prefix kick (nat (click_samples sr)) c = Inr kick'"
    by (auto simp: add_click_def split: sum.splits)
  from c have len: "length c = nat (click_samples sr)" by (simp add: click_length)
  have "nat (click_samples sr) = nat \<lfloor>of_int sr * (5 / 1000 :: real)\<rfloor>"
    by (auto simp: click_samples_def py_int_def)
  with iadd_prefix_nth[OF add len] c len show ?thesis by auto
qed

lemma click_two: "click draws 2 = Inr [draws 0, draws 1 * exp (- 10)]"
  by (simp add: click_def random_normal_def linspace_def Let_def numeral_2_eq_2)

lemma cs400: "click_samples 400 = 2"
  by (simp add: click_samples_def py_int_def)

theorem click_only_prefix_witness:
  "add_click 400 unit_draws [5, 6, 7] = Inr [6, 6 + exp (- 10), 7] \<and>
   (\<exists>c. click unit_draws (click_samples 400) = Inr c \<and>
             length c = nat \<lfloor>of_int 400 * (5 / 1000 :: real)\<rfloor> \<and>
             length [6, 6 + exp (- 10), 7 :: real] = length [5, 6, 7 :: real] \<and>
             (\<forall>i<length [5, 6, 7 :: real]. [6, 6 + exp (- 10), 7] ! i = (if i < length c then [5, 6, 7] ! i + c ! i else [5, 6, 7] ! i)))"
proof -
  have a: "add_click 400 unit_draws [5, 6, 7] = Inr [6, 6 + exp (- 10), 7]"
    by (simp add: add_click_def cs400 click_two iadd_prefix_def unit_draws_def)
  from click_only_prefix[OF a] a show ?thesis by simp
qed

section \<open>Quantization to 16 bits\<close>

lemma py_int_bounds:
  assumes "- 1 \<le> s" "s \<le> 1"
  shows "- 32767 \<le> py_int (s * 32767)" "py_int (s * 32767) \<le> 32767"
proof -
  have a: "- 32767 \<le> s * 32767" "s * 32767 \<le> 32767" using assms by simp_all
  show "- 32767 \<le> py_int (s * 32767)"
    using a unfolding py_int_def by (simp add: le_floor_iff le_ceiling_iff) 
  show "py_int (s * 32767) \<le> 32767"
    using a unfolding py_int_def by (simp add: floor_le_iff ceiling_le_iff)
qed

lemma sint_int16: "- 32768 \<le> k \<Longrightarrow> k < 32768 \<Longrightarrow> sint (word_of_int k :: int16) = k"
  by (simp add: int_word_sint)

lemma sint_quantize:
  assumes "- 1 \<le> s" "s \<le> 1"
  shows "sint (quantize s) = py_int (s * 32767)"
  using py_int_bounds[OF assms] by (simp add: quantize_def astype_int16_def sint_int16)


lemma py_int_abs: "\<bar>py_int x\<bar> = \<lfloor>\<bar>x\<bar>\<rfloor>"
proof (cases "0 \<le> x")
  case True
  then show ?thesis by (simp add: py_int_def)
next
  case False
  then have "\<lceil>x\<rceil> \<le> 0" by (simp add: ceiling_le_iff)
  with False show ?thesis by (simp add: py_int_def ceiling_def)
qed




section \<open>Normalization\<close>

lemma peak_eq_Max: "kick \<noteq> [] \<Longrightarrow> peak kick = Inr (Max (abs ` set kick))"
proof (cases kick)
  case Nil
  then show "kick \<noteq> [] \<Longrightarrow> ?thesis" by simp
next
  case (Cons x xs)
  have "fold max (map abs xs) \<bar>x\<bar> = Max (set (\<bar>x\<bar> # map abs xs))"
    by (rule Max.set_eq_fold [symmetric])
  then show ?thesis by (simp add: peak_def np_max_def Cons)
qed

lemma peak_Inr: "peak kick = Inr p \<Longrightarrow> kick \<noteq> [] \<and> p = Max (abs ` set kick)"
  by (cases "kick = []") (auto simp: peak_Nil peak_eq_Max)

lemma Max_abs_ge: "x \<in> set (kick :: real list) \<Longrightarrow> \<bar>x\<bar> \<le> Max (abs ` set kick)"
  by (rule Max_ge) auto

lemma Max_abs_pos:
  fixes kick :: "real list"
  shows "x \<in> set kick \<Longrightarrow> x \<noteq> 0 \<Longrightarrow> 0 < Max (abs ` set kick)"
proof -
  assume "x \<in> set kick" "x \<noteq> 0"
  then have "0 < \<bar>x\<bar>" and "\<bar>x\<bar> \<le> Max (abs ` set kick)"
    using Max_abs_ge[of x kick] by simp_all
  then show ?thesis by linarith
qed

lemma Max_abs_attained:
  "(kick :: real list) \<noteq> [] \<Longrightarrow> \<exists>x\<in>set kick. \<bar>x\<bar> = Max (abs ` set kick)"
proof -
  assume "kick \<noteq> []"
  then have "Max (abs ` set kick) \<in> abs ` set kick"
    by (intro Max_in) auto
  then show ?thesis by auto
qed


lemma normalize_Inr:
  assumes "normalize decay kick = Inr buf"
  shows "kick \<noteq> [] \<and> decay \<noteq> 0 \<and> 0 < Max (abs ` set kick)
         \<and> buf = map (\<lambda>x. x / Max (abs ` set kick)) kick"
proof -
  from assms obtain p where p: "peak kick = Inr p" "decay \<noteq> 0" "p \<noteq> 0"
    "buf = map (\<lambda>x. x / p) kick"
    by (auto simp: normalize_def split: sum.splits if_splits)
  from peak_Inr[OF p(1)] have k: "kick \<noteq> []" "p = Max (abs ` set kick)" by simp_all
  from Max_abs_attained[OF k(1)] k(2) have "0 \<le> p" by auto
  with p k show ?thesis by simp
qed


lemma sample_count_4: "sample_count 4 (1 / 4) = 1"
  by (simp add: sample_count_def py_int_def)

lemma click_samples_4: "click_samples 4 = 0"
  by (simp add: click_samples_def py_int_def)

lemma kick_buffer_4: "kick_buffer 4 (1 / 4) (1 / 3) 1 draws = Inr [1 / 2]"
proof -
  have t: "time_axis 4 (1 / 4) = Inr [0]"
    by (simp add: time_axis_def sample_count_4 linspace_def)
  have "2 * pi / 12 = pi / 6" by simp
  then have k: "tone 4 (1 / 4) (1 / 3) 1 [0] = [1 / 2]"
    by (simp add: tone_def signal_def phase_def freq_def sweep_freq_def cumsum_def
        envelope_def sin_30)
  have "add_click 4 draws [1 / 2] = Inr [1 / 2]"
    by (simp add: add_click_def click_samples_4 click_def random_normal_def linspace_def
        iadd_prefix_def)
  then show ?thesis by (simp add: kick_buffer_def t k)
qed


text \<open>
  Claim C9: every sample of a normalized buffer quantizes to the truncation of
  \<open>s * 32767\<close> itself (the conversion does not wrap around), an integer between
  \<open>-32767\<close> and \<open>32767\<close>; \<open>-32768\<close> does not occur.
\<close>

theorem quantized_in_range:
  assumes "synthesize sr d b decay draws = Inr kick"
  shows "\<forall>s\<in>set kick. sint (quantize s) = py_int (s * 32767)
           \<and> - 32767 \<le> sint (quantize s) \<and> sint (quantize s) \<le> 32767"
proof
  fix s assume s: "s \<in> set kick"
  from assms obtain k0 where "normalize decay k0 = Inr kick"
    by (auto simp: synthesize_def split: sum.splits)
  from normalize_Inr[OF this] have pos: "0 < Max (abs ` set k0)"
    and kick: "kick = map (\<lambda>x. x / Max (abs ` set k0)) k0" by simp_all
  from s kick obtain x where x: "x \<in> set k0" "s = x / Max (abs ` set k0)" by auto
  with Max_abs_ge[of x k0] pos have "\<bar>s\<bar> \<le> 1" by simp
  then have b: "- 1 \<le> s" "s \<le> 1" by linarith+
  from sint_quantize[OF b] py_int_bounds[OF b]
  show "sint (quantize s) = py_int (s * 32767)
           \<and> - 32767 \<le> sint (quantize s) \<and> sint (quantize s) \<le> 32767" by simp
qed

lemma synthesize_4: "synthesize 4 (1 / 4) (1 / 3) 1 draws = Inr [1]"
  by (simp add: synthesize_def kick_buffer_4 normalize_def peak_def np_max_def)

theorem quantized_in_range_witness:
  "synthesize 4 (1 / 4) (1 / 3) 1 unit_draws = Inr [1]
   \<and> sint (quantize 1) = py_int (1 * 32767) \<and> sint (quantize 1) = 32767"
  using quantized_in_range[OF synthesize_4[of unit_draws]] synthesize_4[of unit_draws]
  by (simp add: py_int_def)

section \<open>The time axis and the frequency sweep\<close>

lemma time_axis_Inr:
  assumes "time_axis sr d = Inr t"
  shows "length t = nat (sample_count sr d)"
    and "i < length t \<Longrightarrow> 2 \<le> length t \<Longrightarrow> t ! i = real i * (d / real (length t - 1))"
    and "length t = 1 \<Longrightarrow> t = [0]"
proof -
  let ?N = "sample_count sr d"
  from assms have N: "0 \<le> ?N"
    by (auto simp: time_axis_def linspace_def split: if_splits)
  show len: "length t = nat ?N"
    using assms unfolding time_axis_def by (rule linspace_length)
  {
    assume i: "i < length t" and two: "2 \<le> length t"
    from two len have "0 < ?N - 1" by linarith
    with assms N have t: "t = map (\<lambda>i. real i * ((d - 0) / of_int (?N - 1)) + 0) [0..<nat ?N]"
      by (simp add: time_axis_def linspace_def Let_def)
    have "real_of_int (?N - 1) = real (length t - 1)"
      using len two N by (simp add: of_nat_diff)
    with i len show "t ! i = real i * (d / real (length t - 1))"
      by (simp add: t)
  }
  {
    assume one: "length t = 1"
    with len have "?N = 1" by linarith
    with assms show "t = [0]"
      by (simp add: time_axis_def linspace_def Let_def)
  }
qed







lemma sweep_freq_mono:
  assumes "0 < b" and "0 < d" and "x < y"
  shows "sweep_freq b d y < sweep_freq b d x"
proof -
  have "0 < d * (1 / 10)" using assms(2) by simp
  then have "- y / (d * (1 / 10)) < - x / (d * (1 / 10))"
    using assms(3) by (simp add: divide_strict_right_mono)
  then have "exp (- y / (d * (1 / 10))) < exp (- x / (d * (1 / 10)))"
    by (simp only: exp_less_cancel_iff)
  then show ?thesis
    unfolding sweep_freq_def using assms(1) by (simp only: mult_strict_left_mono)
qed

lemma time_axis_increasing:
  assumes "time_axis sr d = Inr t" and "0 < d" and "i < j" and "j < length t"
  shows "t ! i < t ! j"
proof -
  from assms(3,4) have two: "2 \<le> length t" and i: "i < length t" by linarith+
  have "0 < d / real (length t - 1)" using assms(2) two by simp
  moreover have "real i < real j" using assms(3) by simp
  ultimately have "real i * (d / real (length t - 1)) < real j * (d / real (length t - 1))"
    by (rule mult_strict_right_mono[rotated])
  then show ?thesis
    by (simp only: time_axis_Inr(2)[OF assms(1) i two] time_axis_Inr(2)[OF assms(1) assms(4) two])
qed

text \<open>
  Claim C3: for a positive base frequency and duration, the sweep frequency at time
  \<open>x\<close> is \<open>base_freq * exp (- x / (duration * 0.1))\<close>; it is \<open>base_freq\<close> at 0 and
  strictly decreasing from 0 on. The same holds along the array \<open>freq\<close> of line 15
  over the time axis.
\<close>

theorem sweep_frequency_decreasing:
  assumes "0 < base_freq" and "0 < duration"
  shows "(\<forall>x. sweep_freq base_freq duration x = base_freq * exp (- x / (duration * (1 / 10))))
       \<and> sweep_freq base_freq duration 0 = base_freq
       \<and> (\<forall>x y. 0 \<le> x \<and> x < y \<longrightarrow> sweep_freq base_freq duration y < sweep_freq base_freq duration x)
       \<and> (\<forall>t. time_axis sr duration = Inr t \<longrightarrow>
             (\<forall>i<length t. freq base_freq duration t ! i = base_freq * exp (- (t ! i) / (duration * (1 / 10))))
           \<and> (t \<noteq> [] \<longrightarrow> freq base_freq duration t ! 0 = base_freq)
           \<and> (\<forall>i j. i < j \<and> j < length t \<longrightarrow>
                 freq base_freq duration t ! j < freq base_freq duration t ! i))"
proof (intro conjI allI impI)
  fix x show "sweep_freq base_freq duration x = base_freq * exp (- x / (duration * (1 / 10)))"
    by (simp add: sweep_freq_def)
next
  show "sweep_freq base_freq duration 0 = base_freq" by (simp add: sweep_freq_def)
next
  fix x y :: real assume "0 \<le> x \<and> x < y"
  then show "sweep_freq base_freq duration y < sweep_freq base_freq duration x"
    using assms by (simp add: sweep_freq_mono)
next
  fix t i assume "time_axis sr duration = Inr t" "i < length t"
  then show "freq base_freq duration t ! i = base_freq * exp (- (t ! i) / (duration * (1 / 10)))"
    by (simp add: freq_def sweep_freq_def)
next
  fix t assume t: "time_axis sr duration = Inr t" and ne: "t \<noteq> []"
  have "t ! 0 = 0"
  proof (cases "length t = 1")
    case True
    with time_axis_Inr(3)[OF t] show ?thesis by simp
  next
    case False
    moreover from ne have "0 < length t" by simp
    ultimately have "2 \<le> length t" by linarith
    with time_axis_Inr(2)[OF t, of 0] ne show ?thesis by simp
  qed
  with ne show "freq base_freq duration t ! 0 = base_freq"
    by (simp add: freq_def sweep_freq_def)
next
  fix t i j assume t: "time_axis sr duration = Inr t" and ij: "i < j \<and> j < length t"
  then have "t ! i < t ! j" using time_axis_increasing[OF t assms(2)] by blast
  then have "sweep_freq base_freq duration (t ! j) < sweep_freq base_freq duration (t ! i)"
    using assms by (simp add: sweep_freq_mono)
  with ij show "freq base_freq duration t ! j < freq base_freq duration t ! i"
    by (simp add: freq_def)
qed

theorem sweep_frequency_decreasing_witness:
  "(0 :: real) < 55 \<and> (0 :: real) < 1 / 2 \<and> sweep_freq 55 (1 / 2) 0 = 55
   \<and> sweep_freq 55 (1 / 2) (1 / 20) = 55 * exp (- 1)
   \<and> sweep_freq 55 (1 / 2) (1 / 20) < sweep_freq 55 (1 / 2) 0
   \<and> time_axis 8 (1 / 4) = Inr [0, 1 / 4]
   \<and> freq 2 (1 / 4) [0, 1 / 4] = [2, 2 * exp (- 10)]"
proof -
  have a: "(0 :: real) < 55" "(0 :: real) < 1 / 2" by simp_all
  have t: "time_axis 8 (1 / 4) = Inr [0, 1 / 4]"
    by (simp add: time_axis_def sample_count_def py_int_def linspace_def numeral_2_eq_2)
  have f: "freq 2 (1 / 4) [0, 1 / 4] = [2, 2 * exp (- 10)]"
    by (simp add: freq_def sweep_freq_def)
  have "sweep_freq 55 (1 / 2) (1 / 20) < sweep_freq 55 (1 / 2) 0"
    using sweep_frequency_decreasing[OF a, of 8] by simp
  then show ?thesis using t f by (simp add: sweep_freq_def)
qed

section \<open>The container round trip\<close>

lemma ascii_vals:
  "ascii ''RIFF'' = [82, 73, 70, 70]" "ascii ''WAVE'' = [87, 65, 86, 69]"
  "ascii ''fmt '' = [102, 109, 116, 32]" "ascii ''data'' = [100, 97, 116, 97]"
  by (simp_all add: ascii_def)

lemma int16_join: "ucast (ucast w :: byte) OR push_bit 8 (ucast (ucast (drop_bit 8 w) :: byte)) = (w :: int16)"
  by (rule bit_eqI) (auto simp: bit_simps)

lemma frombytes_tobytes: "frombytes (tobytes ws) = ws"
  by (induction ws) (simp_all add: tobytes_def int16_bytes_def int16_join)

lemma length_tobytes: "length (tobytes ws) = 2 * length ws"
  by (induction ws) (simp_all add: tobytes_def int16_bytes_def)

lemma unpack_pack_L:
  assumes "pack_L v = Inr bs"
  shows "\<exists>b0 b1 b2 b3. bs = [b0, b1, b2, b3] \<and> unpack [b0, b1, b2, b3] = v"
proof -
  from assms have v: "0 \<le> v" "v < 2 ^ 32"
    and bs: "bs = [word_of_int v, word_of_int (v div 2 ^ 8), word_of_int (v div 2 ^ 16),
                word_of_int (v div 2 ^ 24)]"
    by (auto simp: pack_L_def split: if_splits)
  define a where "a = v div 256"
  define b where "b = a div 256"
  define c where "c = b div 256"
  have d8: "v div 256 = a" by (simp add: a_def)
  have d16: "v div 65536 = b"
    unfolding b_def a_def by (simp add: zdiv_zmult2_eq)
  have d24: "v div 16777216 = c"
    unfolding c_def b_def a_def by (simp add: zdiv_zmult2_eq)
  have "a < 2 ^ 24" "0 \<le> a" using v unfolding a_def by simp_all
  then have "b < 2 ^ 16" "0 \<le> b" unfolding b_def by simp_all
  then have "c < 256" "0 \<le> c" unfolding c_def by simp_all
  then have top: "c mod 256 = c" by simp
  have "v = v mod 256 + 256 * a" "a = a mod 256 + 256 * b" "b = b mod 256 + 256 * c"
    unfolding a_def b_def c_def by simp_all
  then have "v mod 256 + 256 * (a mod 256 + 256 * (b mod 256 + 256 * c)) = v"
    by simp
  then show ?thesis
    using top by (simp add: bs unpack_def uint_word_of_int d8 d16 d24)
qed


lemma pack_consts:
  "pack_L 16 = Inr [16, 0, 0, 0]" "pack_H 1 = Inr [1, 0]" "pack_H 2 = Inr [2, 0]"
  "pack_H 16 = Inr [16, 0]"
  by (simp_all add: pack_L_def pack_H_def)

lemma wave_write_Inr:
  assumes "wave_write rate data = Inr f" and "even (length data)"
  shows "\<exists>a b c d. pack_L (36 + int (length data)) = Inr a \<and> pack_L rate = Inr b
           \<and> pack_L (rate * 2) = Inr c \<and> pack_L (int (length data)) = Inr d
           \<and> f = ascii ''RIFF'' @ a @ ascii ''WAVE'' @ ascii ''fmt '' @ [16, 0, 0, 0, 1, 0, 1, 0]
                 @ b @ c @ [2, 0, 16, 0] @ ascii ''data'' @ d @ data"
proof -
  from assms(2) have n: "int (length data) div 2 * 2 = int (length data)" by presburger
  from assms(1) show ?thesis
    by (auto simp: wave_write_def wave_header_def Let_def pack_consts n
        split: if_splits sum.splits)
qed

lemma unpack_consts: "unpack [1, 0] = 1" "unpack [16, 0] = 16"
  by (simp_all add: unpack_def)

text \<open>
  Claim C8: whenever the writer writes a file for a sequence of 16-bit integers, decoding
  the file by its header gives one channel, 16 bits, the frame rate, and exactly that
  sequence.
\<close>

theorem wav_roundtrip:
  assumes "wave_write rate (tobytes ws) = Inr f"
  shows "decode_wav f = Some \<lparr>channels = 1, sample_bits = 16, framerate = rate, frames = ws\<rparr>"
proof -
  let ?n = "int (length (tobytes ws))"
  have ev: "even (length (tobytes ws))" by (simp add: length_tobytes)
  from wave_write_Inr[OF assms ev] obtain a b c d where
    p: "pack_L (36 + ?n) = Inr a" "pack_L rate = Inr b" "pack_L (rate * 2) = Inr c"
      "pack_L ?n = Inr d"
    and f: "f = ascii ''RIFF'' @ a @ ascii ''WAVE'' @ ascii ''fmt '' @ [16, 0, 0, 0, 1, 0, 1, 0]
                 @ b @ c @ [2, 0, 16, 0] @ ascii ''data'' @ d @ tobytes ws"
    by blast
  from unpack_pack_L[OF p(1)] obtain a0 a1 a2 a3 where a: "a = [a0, a1, a2, a3]" by blast
  from unpack_pack_L[OF p(2)] obtain b0 b1 b2 b3 where b: "b = [b0, b1, b2, b3]"
    "unpack [b0, b1, b2, b3] = rate" by blast
  from unpack_pack_L[OF p(3)] obtain c0 c1 c2 c3 where c: "c = [c0, c1, c2, c3]" by blast
  from unpack_pack_L[OF p(4)] obtain d0 d1 d2 d3 where d: "d = [d0, d1, d2, d3]"
    "unpack [d0, d1, d2, d3] = ?n" by blast
  have n: "nat ?n = length (tobytes ws)" by simp
  show ?thesis
    unfolding decode_wav_def f a b(1) c d(1) ascii_vals
    by (simp add: unpack_consts b(2) d(2) n frombytes_tobytes del: of_nat_mult)
qed

lemma wave_write_ex: "wave_write 8 (tobytes [1, - 2]) = Inr
  [82, 73, 70, 70, 40, 0, 0, 0, 87, 65, 86, 69, 102, 109, 116, 32, 16, 0, 0, 0, 1, 0, 1, 0,
   8, 0, 0, 0, 16, 0, 0, 0, 2, 0, 16, 0, 100, 97, 116, 97, 4, 0, 0, 0, 1, 0, 254, 255]"
  by (simp add: wave_write_def wave_header_def tobytes_def int16_bytes_def pack_L_def
      pack_H_def ascii_vals)

theorem wav_roundtrip_witness:
  "wave_write 8 (tobytes [1, - 2]) = Inr
  [82, 73, 70, 70, 40, 0, 0, 0, 87, 65, 86, 69, 102, 109, 116, 32, 16, 0, 0, 0, 1, 0, 1, 0,
   8, 0, 0, 0, 16, 0, 0, 0, 2, 0, 16, 0, 100, 97, 116, 97, 4, 0, 0, 0, 1, 0, 254, 255]
   \<and> decode_wav [82, 73, 70, 70, 40, 0, 0, 0, 87, 65, 86, 69, 102, 109, 116, 32, 16, 0, 0, 0, 1, 0, 1, 0,
   8, 0, 0, 0, 16, 0, 0, 0, 2, 0, 16, 0, 100, 97, 116, 97, 4, 0, 0, 0, 1, 0, 254, 255]
     = Some \<lparr>channels = 1, sample_bits = 16, framerate = 8, frames = [1, - 2]\<rparr>"
  using wav_roundtrip[OF wave_write_ex] wave_write_ex by simp

section \<open>The first call: base frequency 55, decay 0.4\<close>

lemma cumsum_from_nth:
  "i < length xs \<Longrightarrow> cumsum_from acc xs ! i = acc + sum_list (take (Suc i) xs)"
proof (induction xs arbitrary: acc i)
  case Nil
  then show ?case by simp
next
  case (Cons x xs)
  show ?case
  proof (cases i)
    case 0
    then show ?thesis by simp
  next
    case (Suc j)
    with Cons.prems have "j < length xs" by simp
    from Cons.IH[OF this, of "acc + x"] Suc show ?thesis by simp
  qed
qed

lemma tone_nth:
  assumes "i < length t"
  shows "tone sr d b decay t ! i =
           sin (2 * pi * sum_list (take (Suc i) (freq b d t)) / of_int sr) * exp (- (t ! i) / decay)"
  using assms
  by (simp add: tone_def signal_def phase_def envelope_def cumsum_def length_cumsum_from
      cumsum_from_nth freq_def)

lemma sum_list_bounds:
  fixes xs :: "real list"
  assumes "\<forall>x\<in>set xs. 0 < x \<and> x \<le> B" and "xs \<noteq> []"
  shows "0 < sum_list xs \<and> sum_list xs \<le> real (length xs) * B"
  using assms
proof (induction xs)
  case Nil
  then show ?case by simp
next
  case (Cons x xs)
  show ?case
  proof (cases "xs = []")
    case True
    with Cons.prems show ?thesis by simp
  next
    case False
    with Cons have "0 < sum_list xs \<and> sum_list xs \<le> real (length xs) * B" by simp
    moreover from Cons.prems have "0 < x" "x \<le> B" by simp_all
    ultimately show ?thesis by (simp add: algebra_simps)
  qed
qed

lemma tone_abs_le_one:
  assumes "i < length t" and "0 \<le> t ! i" and "0 < decay"
  shows "\<bar>tone sr d b decay t ! i\<bar> \<le> 1"
proof -
  let ?s = "sin (2 * pi * sum_list (take (Suc i) (freq b d t)) / of_int sr)"
  let ?e = "exp (- (t ! i) / decay)"
  have "- (t ! i) / decay \<le> 0" using assms(2,3) by (simp add: divide_nonpos_pos)
  then have e: "0 < ?e" "?e \<le> 1" by simp_all
  have "\<bar>?s * ?e\<bar> = \<bar>?s\<bar> * ?e" using e by (simp add: abs_mult)
  also have "\<dots> \<le> 1 * 1"
    using e by (intro mult_mono) simp_all
  finally show ?thesis by (simp add: tone_nth[OF assms(1)])
qed


lemma click_nth:
  assumes "click draws n = Inr c" and "2 \<le> n" and "i < length c"
  shows "c ! i = draws i * exp (- (real i * (10 / of_int (n - 1))))"
proof -
  from assms(2) have "0 < n - 1" "\<not> n < 0" by linarith+
  with assms(1) have c: "c = map2 (*) (map draws [0..<nat n])
      (map (\<lambda>x. exp (- x)) (map (\<lambda>i. real i * ((10 - 0) / of_int (n - 1)) + 0) [0..<nat n]))"
    by (simp add: click_def random_normal_def linspace_def Let_def)
  from assms(3) have "i < nat n" by (simp add: c)
  then show ?thesis by (simp add: c)
qed

lemma sample_count_kick1: "sample_count 44100 (1 / 2) = 22050"
  by (simp add: sample_count_def py_int_def)

lemma click_samples_kick1: "click_samples 44100 = 220"
proof -
  have "\<lfloor>441 / 2 :: real\<rfloor> = 220" by (simp add: floor_eq_iff)
  then show ?thesis by (simp add: click_samples_def py_int_def)
qed

lemma kick1_time_axis:
  "\<exists>t. time_axis 44100 (1 / 2) = Inr t \<and> length t = 22050
         \<and> (\<forall>i<22050. t ! i = real i * (1 / 44098))"
proof -
  obtain t where t: "time_axis 44100 (1 / 2) = Inr t"
    using linspace_Inr[of "sample_count 44100 (1 / 2)" 0 "1 / 2"]
    unfolding time_axis_def sample_count_kick1 by auto
  have len: "length t = 22050"
    using time_axis_Inr(1)[OF t] by (simp add: sample_count_kick1)
  have "t ! i = real i * (1 / 44098)" if "i < 22050" for i
    using time_axis_Inr(2)[OF t, of i] that len by simp
  with t len show ?thesis by blast
qed


lemma sweep_freq_bounds:
  assumes "0 < b" and "0 < d" and "0 \<le> x"
  shows "0 < sweep_freq b d x \<and> sweep_freq b d x \<le> b"
proof -
  have "- x / (d * (1 / 10)) \<le> 0" using assms(2,3) by (simp add: divide_nonpos_pos)
  then have "exp (- x / (d * (1 / 10))) \<le> 1" by simp
  then have "b * exp (- x / (d * (1 / 10))) \<le> b * 1"
    using assms(1) by (intro mult_left_mono) simp_all
  then show ?thesis using assms(1) by (simp add: sweep_freq_def)
qed

lemma tone_pos:
  assumes "i < length t" and "\<forall>j\<le>i. 0 \<le> t ! j" and "0 < b" and "0 < d" and "0 < decay"
    and "2 * (real (Suc i) * b) < of_int sr"
  shows "0 < tone sr d b decay t ! i"
proof -
  let ?xs = "take (Suc i) (freq b d t)"
  let ?S = "sum_list ?xs"
  have len: "length ?xs = Suc i" using assms(1) by (simp add: freq_def)
  have el: "\<forall>x\<in>set ?xs. 0 < x \<and> x \<le> b"
  proof
    fix x assume "x \<in> set ?xs"
    then obtain j where j: "j < length ?xs" "x = ?xs ! j" by (auto simp: in_set_conv_nth)
    with len assms(1) have "j \<le> i" "x = sweep_freq b d (t ! j)" by (simp_all add: freq_def)
    with assms(2,3,4) show "0 < x \<and> x \<le> b" by (simp add: sweep_freq_bounds)
  qed
  have "?xs \<noteq> []" using len by auto
  from sum_list_bounds[OF el this] have S: "0 < ?S" "?S \<le> real (Suc i) * b"
    by (simp_all only: len)
  from S(2) assms(6) have sr: "2 * ?S < of_int sr" "(0 :: real) < of_int sr"
    using S(1) by linarith+
  have "0 < 2 * pi * ?S / of_int sr" using S(1) sr(2) by simp
  moreover have "2 * pi * ?S / of_int sr < pi"
  proof -
    have "pi * (2 * ?S) < pi * of_int sr" using sr(1) by (intro mult_strict_left_mono) simp_all
    then show ?thesis using sr(2) by (simp add: divide_less_eq mult_ac)
  qed
  ultimately have "0 < sin (2 * pi * ?S / of_int sr)" by (rule sin_gt_zero)
  then show ?thesis by (simp add: tone_nth[OF assms(1)])
qed


lemma kick1_buffer:
  obtains t c kick where
    "time_axis 44100 (1 / 2) = Inr t" and "length t = 22050"
    and "\<forall>i<22050. t ! i = real i * (1 / 44098)"
    and "click draws 220 = Inr c" and "length c = 220"
    and "kick_buffer 44100 (1 / 2) 55 (4 / 10) draws = Inr kick" and "length kick = 22050"
    and "\<forall>i<22050. kick ! i =
           (if i < 220 then tone 44100 (1 / 2) 55 (4 / 10) t ! i + c ! i
            else tone 44100 (1 / 2) 55 (4 / 10) t ! i)"
proof -
  from kick1_time_axis obtain t where t: "time_axis 44100 (1 / 2) = Inr t" "length t = 22050"
    "\<forall>i<22050. t ! i = real i * (1 / 44098)" by blast
  obtain c where c: "click draws 220 = Inr c" "length c = 220"
    using click_Inr[of 220 draws] by auto
  let ?K = "tone 44100 (1 / 2) 55 (4 / 10) t"
  have lenK: "length ?K = 22050" by (simp add: length_tone t(2))
  have "iadd_prefix ?K 220 c = Inr (map2 (+) (take 220 ?K) c @ drop 220 ?K)"
    by (simp add: iadd_prefix_def length_tone t(2) c(2) Let_def)
  then obtain kick where add: "iadd_prefix ?K 220 c = Inr kick" by blast
  from iadd_prefix_nth[OF add c(2)] lenK
  have k: "length kick = 22050"
    "\<forall>i<22050. kick ! i = (if i < 220 then ?K ! i + c ! i else ?K ! i)" by simp_all
  have "kick_buffer 44100 (1 / 2) 55 (4 / 10) draws = Inr kick"
    using add by (simp add: kick_buffer_def t(1) add_click_def click_samples_kick1 c(1))
  with t c k show ?thesis using that by blast
qed

lemma kick1_tone_facts:
  assumes "length t = 22050" and "\<forall>i<22050. t ! i = real i * (1 / 44098)"
  shows "0 < tone 44100 (1 / 2) 55 (4 / 10) t ! 220"
    and "i < 22050 \<Longrightarrow> \<bar>tone 44100 (1 / 2) 55 (4 / 10) t ! i\<bar> \<le> 1"
proof -
  have nn: "0 \<le> t ! j" if "j < 22050" for j
    by (simp add: assms(2)[rule_format, OF that])
  show "0 < tone 44100 (1 / 2) 55 (4 / 10) t ! 220"
    by (rule tone_pos) (simp_all add: assms(1) nn)
  show "\<bar>tone 44100 (1 / 2) 55 (4 / 10) t ! i\<bar> \<le> 1" if "i < 22050"
    by (rule tone_abs_le_one) (simp_all add: assms(1) nn that)
qed

lemma kick1_synthesize:
  obtains kick p where "kick_buffer 44100 (1 / 2) 55 (4 / 10) draws = Inr kick"
    and "length kick = 22050" and "p = Max (abs ` set kick)" and "0 < p"
    and "synthesize 44100 (1 / 2) 55 (4 / 10) draws = Inr (map (\<lambda>x. x / p) kick)"
proof -
  obtain t c kick where k: "length t = 22050" "\<forall>i<22050. t ! i = real i * (1 / 44098)"
    "kick_buffer 44100 (1 / 2) 55 (4 / 10) draws = Inr kick" "length kick = 22050"
    "\<forall>i<22050. kick ! i =
           (if i < 220 then tone 44100 (1 / 2) 55 (4 / 10) t ! i + c ! i
            else tone 44100 (1 / 2) 55 (4 / 10) t ! i)"
    by (rule kick1_buffer[of draws]) blast
  from k(5) have "kick ! 220 = tone 44100 (1 / 2) 55 (4 / 10) t ! 220" by simp
  with kick1_tone_facts(1)[OF k(1,2)] have "kick ! 220 \<noteq> 0" by simp
  moreover have in_set: "kick ! 220 \<in> set kick" using k(4) by (intro nth_mem) simp
  ultimately have pos: "0 < Max (abs ` set kick)" by (rule Max_abs_pos[rotated])
  from in_set have ne: "kick \<noteq> []" by auto
  have "synthesize 44100 (1 / 2) 55 (4 / 10) draws = Inr (map (\<lambda>x. x / Max (abs ` set kick)) kick)"
    unfolding synthesize_def k(3) using pos by (simp add: normalize_def peak_eq_Max[OF ne])
  with k(3,4) pos show ?thesis using that by blast
qed


lemma pack_L_ok: "0 \<le> v \<Longrightarrow> v < 2 ^ 32 \<Longrightarrow> \<exists>bs. pack_L v = Inr bs \<and> length bs = 4"
  by (simp add: pack_L_def)

lemma wave_write_ok:
  assumes "0 < rate" and "rate * 2 < 2 ^ 32" and "36 + int (length data) < 2 ^ 32"
    and "even (length data)"
  shows "\<exists>h. length h = 44 \<and> wave_write rate data = Inr (h @ data)"
proof -
  let ?n = "int (length data)"
  from assms(4) have n: "?n div 2 * 2 = ?n" by presburger
  obtain a where a: "pack_L (36 + ?n) = Inr a" "length a = 4"
    using pack_L_ok[of "36 + ?n"] assms(3) by auto
  obtain b where b: "pack_L rate = Inr b" "length b = 4"
    using pack_L_ok[of rate] assms(1,2) by auto
  obtain c where c: "pack_L (rate * 2) = Inr c" "length c = 4"
    using pack_L_ok[of "rate * 2"] assms(1,2) by auto
  obtain d where d: "pack_L ?n = Inr d" "length d = 4"
    using pack_L_ok[of ?n] assms(3) by auto
  let ?h = "ascii ''RIFF'' @ a @ ascii ''WAVE'' @ ascii ''fmt '' @ [16, 0, 0, 0, 1, 0, 1, 0]
                 @ b @ c @ [2, 0, 16, 0] @ ascii ''data'' @ d"
  have "length ?h = 44" by (simp add: a b c d ascii_def)
  moreover have "wave_header rate ?n = Inr ?h"
    by (simp add: wave_header_def Let_def pack_consts a b c d)
  then have "wave_write rate data = Inr (?h @ data)"
    using assms(1) by (simp add: wave_write_def Let_def n)
  ultimately show ?thesis by blast
qed

lemma write_wav_ok:
  assumes "0 < rate" and "rate * 2 < 2 ^ 32" and "36 + 2 * int (length buf) < 2 ^ 32"
  shows "\<exists>f. write_wav rate buf = Inr f \<and> length f = 44 + 2 * length buf
           \<and> frombytes (drop 44 f) = kick_int buf"
proof -
  let ?data = "tobytes (kick_int buf)"
  have len: "length ?data = 2 * length buf" by (simp add: length_tobytes kick_int_def)
  from wave_write_ok[of rate ?data] assms len
  obtain h where h: "length h = 44" "wave_write rate ?data = Inr (h @ ?data)" by auto
  have "frombytes (drop 44 (h @ ?data)) = kick_int buf"
    using h(1) by (simp add: frombytes_tobytes)
  with h len show ?thesis by (simp add: write_wav_def)
qed

lemma quantize_peak_iff:
  assumes "\<bar>s\<bar> \<le> 1"
  shows "\<bar>sint (quantize s)\<bar> = 32767 \<longleftrightarrow> \<bar>s\<bar> = 1"
proof -
  from assms have b: "- 1 \<le> s" "s \<le> 1" by linarith+
  have "\<bar>sint (quantize s)\<bar> = \<lfloor>\<bar>s * 32767\<bar>\<rfloor>"
    by (simp only: sint_quantize[OF b] py_int_abs)
  also have "\<dots> = \<lfloor>\<bar>s\<bar> * 32767\<rfloor>" by (simp add: abs_mult)
  finally have eq: "\<bar>sint (quantize s)\<bar> = \<lfloor>\<bar>s\<bar> * 32767\<rfloor>" .
  show ?thesis
  proof
    assume "\<bar>sint (quantize s)\<bar> = 32767"
    with eq have "\<lfloor>\<bar>s\<bar> * 32767\<rfloor> = 32767" by simp
    then have "32767 \<le> \<bar>s\<bar> * 32767" by linarith
    with assms show "\<bar>s\<bar> = 1" by simp
  next
    assume "\<bar>s\<bar> = 1"
    with eq show "\<bar>sint (quantize s)\<bar> = 32767" by simp
  qed
qed

lemma peak_frames_count:
  assumes "0 < p" and "p = Max (abs ` set kick)"
  shows "length (filter (\<lambda>w. \<bar>sint w\<bar> = 32767) (kick_int (map (\<lambda>x. x / p) kick)))
         = length (filter (\<lambda>x. \<bar>x\<bar> = p) kick)"
proof -
  have "(\<bar>sint (quantize (x / p))\<bar> = 32767) = (\<bar>x\<bar> = p)" if "x \<in> set kick" for x
  proof -
    from Max_abs_ge[OF that] assms have "\<bar>x / p\<bar> \<le> 1" by simp
    from quantize_peak_iff[OF this] assms(1) show ?thesis by auto
  qed
  then have "filter ((\<lambda>w. \<bar>sint w\<bar> = 32767) \<circ> (\<lambda>x. quantize (x / p))) kick
           = filter (\<lambda>x. \<bar>x\<bar> = p) kick"
    by (intro filter_cong) simp_all
  then show ?thesis
    by (simp add: kick_int_def filter_map o_def)
qed


lemma kick1_run:
  obtains kick p f where "kick_buffer 44100 (1 / 2) 55 (4 / 10) draws = Inr kick"
    and "length kick = 22050" and "p = Max (abs ` set kick)" and "0 < p"
    and "synthesize 44100 (1 / 2) 55 (4 / 10) draws = Inr (map (\<lambda>x. x / p) kick)"
    and "kick1 draws = Inr f" and "length f = 44144"
    and "peak_frames (kick1 draws) = length (filter (\<lambda>x. \<bar>x\<bar> = p) kick)"
proof -
  obtain kick p where k: "kick_buffer 44100 (1 / 2) 55 (4 / 10) draws = Inr kick"
    "length kick = 22050" "p = Max (abs ` set kick)" "0 < p"
    "synthesize 44100 (1 / 2) 55 (4 / 10) draws = Inr (map (\<lambda>x. x / p) kick)"
    by (rule kick1_synthesize[of draws]) blast
  let ?buf = "map (\<lambda>x. x / p) kick"
  from write_wav_ok[of 44100 ?buf] k(2)
  obtain f where f: "write_wav 44100 ?buf = Inr f" "length f = 44144"
    "frombytes (drop 44 f) = kick_int ?buf" by auto
  have run: "kick1 draws = Inr f"
    unfolding kick1_def generate_kick_def k(5) using f(1) by simp
  have "peak_frames (kick1 draws) = length (filter (\<lambda>x. \<bar>x\<bar> = p) kick)"
    unfolding run peak_frames_def using peak_frames_count[OF k(4,3)] by (simp add: f(3))
  with k f(2) run show ?thesis using that by blast
qed

text \<open>
  Claim C6, amended: for base frequency 55, decay 0.4, duration 0.5 and rate 44100,
  whatever the noise, the run succeeds, the buffer has 22050 samples, the file has
  \<open>44144 = 44 + 22050 * 2\<close> bytes, and the frames that hold \<open>32767\<close> or \<open>-32767\<close> are
  as many as the samples whose absolute value is the peak of the buffer before
  normalization: at least one.
\<close>

theorem kick1_file:
  "\<exists>kick p f. kick_buffer 44100 (1 / 2) 55 (4 / 10) draws = Inr kick \<and> peak kick = Inr p
     \<and> synthesize 44100 (1 / 2) 55 (4 / 10) draws = Inr (map (\<lambda>x. x / p) kick)
     \<and> length (map (\<lambda>x. x / p) kick) = 22050
     \<and> kick1 draws = Inr f \<and> length f = 44144 \<and> length f = 44 + 22050 * 2
     \<and> peak_frames (kick1 draws) = length (filter (\<lambda>x. \<bar>x\<bar> = p) kick)
     \<and> 1 \<le> peak_frames (kick1 draws)"
proof -
  obtain kick p f where r: "kick_buffer 44100 (1 / 2) 55 (4 / 10) draws = Inr kick"
    "length kick = 22050" "p = Max (abs ` set kick)" "0 < p"
    "synthesize 44100 (1 / 2) 55 (4 / 10) draws = Inr (map (\<lambda>x. x / p) kick)"
    "kick1 draws = Inr f" "length f = 44144"
    "peak_frames (kick1 draws) = length (filter (\<lambda>x. \<bar>x\<bar> = p) kick)"
    by (rule kick1_run[of draws]) blast
  from r(2) have ne: "kick \<noteq> []" by auto
  from peak_eq_Max[OF ne] r(3) have pk: "peak kick = Inr p" by simp
  from Max_abs_attained[OF ne] r(3) obtain x where "x \<in> set kick" "\<bar>x\<bar> = p" by auto
  then have "x \<in> set (filter (\<lambda>x. \<bar>x\<bar> = p) kick)" by simp
  then have "filter (\<lambda>x. \<bar>x\<bar> = p) kick \<noteq> []" by (metis empty_iff empty_set)
  then have "1 \<le> length (filter (\<lambda>x. \<bar>x\<bar> = p) kick)" by (simp add: Suc_le_eq)
  with r pk show ?thesis by auto
qed


theorem kick1_file_witness:
  "1 \<le> peak_frames (kick1 no_noise) \<and> (\<exists>f. kick1 no_noise = Inr f \<and> length f = 44144)"
  using kick1_file[of no_noise] by blast

lemma tie_buffer:
  obtains kick where "kick_buffer 44100 (1 / 2) 55 (4 / 10) tie_draws = Inr kick"
    and "length kick = 22050" and "kick ! 0 = 2" and "kick ! 1 = 2"
    and "\<forall>i<22050. 2 \<le> i \<longrightarrow> \<bar>kick ! i\<bar> \<le> 1"
proof -
  obtain t c kick where k: "length t = 22050" "\<forall>i<22050. t ! i = real i * (1 / 44098)"
    "click tie_draws 220 = Inr c" "length c = 220"
    "kick_buffer 44100 (1 / 2) 55 (4 / 10) tie_draws = Inr kick" "length kick = 22050"
    "\<forall>i<22050. kick ! i =
           (if i < 220 then tone 44100 (1 / 2) 55 (4 / 10) t ! i + c ! i
            else tone 44100 (1 / 2) 55 (4 / 10) t ! i)"
    by (rule kick1_buffer[of tie_draws]) blast
  let ?K = "tone 44100 (1 / 2) 55 (4 / 10) t"
  define X where "X = sin (2 * pi * (55 + 55 * exp (- (1 / 44098) / (1 / 2 * (1 / 10)))) / 44100)
                * exp (- (1 / 44098) / (4 / 10))"
  define Y where "Y = sin (2 * pi * 55 / 44100)"
  have cn: "c ! i = tie_draws i * exp (- (real i * (10 / 219)))" if "i < 220" for i
    using click_nth[OF k(3), of i] that k(4) by simp
  have c0: "c ! 0 = 2 - Y" using cn[of 0] by (simp add: tie_draws_def Y_def)
  have "tie_draws 1 = (2 - X) / exp (- (10 / 219))"
    unfolding tie_draws_def X_def by simp
  then have c1: "c ! 1 = 2 - X" using cn[of 1] by simp
  have cz: "c ! i = 0" if "2 \<le> i" "i < 220" for i
    using cn[OF that(2)] that(1) by (simp add: tie_draws_def)
  have t0: "t ! 0 = 0" using k(2)[rule_format, of 0] by simp
  have t1: "t ! Suc 0 = 1 / 44098" using k(2)[rule_format, of 1] by simp
  have f1: "take (Suc 0) (freq 55 (1 / 2) t) = [55]"
    using k(1) t0 by (simp add: freq_def take_Suc_conv_app_nth sweep_freq_def)
  have "take (Suc (Suc 0)) (freq 55 (1 / 2) t)
      = take (Suc 0) (freq 55 (1 / 2) t) @ [freq 55 (1 / 2) t ! Suc 0]"
    using k(1) by (simp add: take_Suc_conv_app_nth freq_def)
  also have "freq 55 (1 / 2) t ! Suc 0 = 55 * exp (- (1 / 44098) / (1 / 2 * (1 / 10)))"
    using k(1) by (simp add: freq_def sweep_freq_def t1)
  finally have f2: "take (Suc (Suc 0)) (freq 55 (1 / 2) t)
      = [55, 55 * exp (- (1 / 44098) / (1 / 2 * (1 / 10)))]"
    by (simp only: f1 append_Cons append_Nil)
  have K0: "?K ! 0 = Y"
    using k(1) by (simp add: tone_nth f1 t0 Y_def)
  have K1: "?K ! 1 = X"
    using k(1) unfolding X_def by (simp add: tone_nth f2 t1)
  have "kick ! 0 = ?K ! 0 + c ! 0" using k(7) by simp
  then have a: "kick ! 0 = 2" by (simp only: K0 c0)
  have "kick ! 1 = ?K ! 1 + c ! 1" using k(7) by simp
  then have b: "kick ! 1 = 2" by (simp only: K1 c1)
  have "\<bar>kick ! i\<bar> \<le> 1" if "i < 22050" "2 \<le> i" for i
  proof -
    have "kick ! i = ?K ! i" using k(7) that cz[of i] by (cases "i < 220") simp_all
    with kick1_tone_facts(2)[OF k(1,2) that(1)] show ?thesis by simp
  qed
  with k(5,6) a b show ?thesis using that by blast
qed

text \<open>
  Claim C6 says that exactly one frame holds the quantized peak. That depends on the
  noise: with the draws \<open>tie_draws\<close> the first two samples are both the peak, and two
  frames hold \<open>32767\<close>.
\<close>

theorem two_peak_frames_counterexample:
  "peak_frames (kick1 tie_draws) = 2"
proof -
  obtain kick where k: "kick_buffer 44100 (1 / 2) 55 (4 / 10) tie_draws = Inr kick"
    "length kick = 22050" "kick ! 0 = 2" "kick ! 1 = 2"
    "\<forall>i<22050. 2 \<le> i \<longrightarrow> \<bar>kick ! i\<bar> \<le> 1"
    by (rule tie_buffer) blast
  obtain kick' p where r: "kick_buffer 44100 (1 / 2) 55 (4 / 10) tie_draws = Inr kick'"
    "p = Max (abs ` set kick')"
    "peak_frames (kick1 tie_draws) = length (filter (\<lambda>x. \<bar>x\<bar> = p) kick')"
    by (rule kick1_run[of tie_draws]) blast
  from k(1) r(1) have same: "kick' = kick" by simp
  have le: "\<bar>kick ! i\<bar> \<le> 2" if "i < 22050" for i
  proof (cases "2 \<le> i")
    case True
    with k(5) that show ?thesis by fastforce
  next
    case False
    then have "i = 0 \<or> i = 1" by linarith
    with k(3,4) show ?thesis by auto
  qed
  have "Max (abs ` set kick) = 2"
  proof (rule Max_eqI)
    show "finite (abs ` set kick)" by simp
  next
    fix y assume "y \<in> abs ` set kick"
    then obtain i where "i < length kick" "y = \<bar>kick ! i\<bar>" by (auto simp: in_set_conv_nth)
    with le k(2) show "y \<le> 2" by simp
  next
    have "kick ! 0 \<in> set kick" using k(2) by (intro nth_mem) simp
    with k(3) show "2 \<in> abs ` set kick" by force
  qed
  with r(2) same have p: "p = 2" by simp
  have "{i. i < length kick \<and> \<bar>kick ! i\<bar> = 2} = {0, 1}"
  proof (intro set_eqI iffI)
    fix i assume "i \<in> {i. i < length kick \<and> \<bar>kick ! i\<bar> = 2}"
    then have i: "i < 22050" "\<bar>kick ! i\<bar> = 2" using k(2) by simp_all
    have "\<not> 2 \<le> i"
    proof
      assume "2 \<le> i"
      with k(5) i(1) have "\<bar>kick ! i\<bar> \<le> 1" by blast
      with i(2) show False by simp
    qed
    then show "i \<in> {0, 1}" by auto
  next
    fix i :: nat assume "i \<in> {0, 1}"
    with k(2,3,4) show "i \<in> {i. i < length kick \<and> \<bar>kick ! i\<bar> = 2}" by auto
  qed
  then have "length (filter (\<lambda>x. \<bar>x\<bar> = 2) kick) = 2"
    by (simp add: length_filter_conv_card)
  with r(3) same p show ?thesis by simp
qed

section \<open>Runs that write a file\<close>







end
